theory Spec2Isabelle
  imports Complex_Main "HOL-Library.Sublist"
begin

section \<open>Text\<close>

text \<open>
  The program is \<^verbatim>\<open>detailed-comments-app.py\<close>. A Python \<^verbatim>\<open>str\<close> is a
  \<^typ>\<open>string\<close>, one \<^typ>\<open>char\<close> for each code point, so the model covers text whose
  code points are below 256; \<open>length\<close> counts code points as Python's \<^verbatim>\<open>len\<close> does.
  On that range \<^verbatim>\<open>str.isspace\<close> and the regular expression class \<^verbatim>\<open>\s\<close> hold
  for the same twelve characters: 9 to 13, 28 to 32, 133 and 160.
\<close>

definition isspace :: "char \<Rightarrow> bool" where
  "isspace c = (let n = (of_char c :: nat) in
     (9 \<le> n \<and> n \<le> 13) \<or> (28 \<le> n \<and> n \<le> 32) \<or> n = 133 \<or> n = 160)"

text \<open>\<^verbatim>\<open>s.strip()\<close>: the whitespace at both ends is removed.\<close>

definition strip :: "string \<Rightarrow> string" where
  "strip s = rev (dropWhile isspace (rev (dropWhile isspace s)))"

text \<open>
  \<^verbatim>\<open>s.lower()\<close>: below 256 the characters with a lower case of their own are
  \<^verbatim>\<open>A\<close> to \<^verbatim>\<open>Z\<close> and 192 to 222 without the multiplication sign 215; the
  lower case is 32 further up.
\<close>

definition isupper :: "char \<Rightarrow> bool" where
  "isupper c = (let n = (of_char c :: nat) in
     (65 \<le> n \<and> n \<le> 90) \<or> (192 \<le> n \<and> n \<le> 222 \<and> n \<noteq> 215))"

definition lower_char :: "char \<Rightarrow> char" where
  "lower_char c = (if isupper c then char_of ((of_char c :: nat) + 32) else c)"

definition lower :: "string \<Rightarrow> string" where
  "lower s = map lower_char s"

text \<open>\<^verbatim>\<open>s.replace(old, new)\<close> for an \<^verbatim>\<open>old\<close> of one character.\<close>

definition replace :: "char \<Rightarrow> string \<Rightarrow> string \<Rightarrow> string" where
  "replace old new s = concat (map (\<lambda>c. if c = old then new else [c]) s)"

text \<open>
  Bytes are numbers below 256. \<^verbatim>\<open>s.encode()\<close>, the UTF-8 bytes of a text: a code
  point below 128 is one byte, a code point from 128 to 255 is two.
\<close>

definition utf8_char :: "char \<Rightarrow> nat list" where
  "utf8_char c = (let n = (of_char c :: nat) in
     if n < 128 then [n] else [192 + n div 64, 128 + n mod 64])"

definition utf8 :: "string \<Rightarrow> nat list" where
  "utf8 s = concat (map utf8_char s)"

section \<open>Regular expressions\<close>

text \<open>
  The one pattern of the program is a sequence of literal characters and starred
  character classes, one of them in a group. \<open>Star q k\<close> is \<^verbatim>\<open>k*\<close> (greedy) or
  \<^verbatim>\<open>k*?\<close> (lazy), \<open>GroupStar q k\<close> is the same in parentheses. The flags are
  \<^verbatim>\<open>re.IGNORECASE\<close> and \<^verbatim>\<open>re.DOTALL\<close>.
\<close>

datatype cls = Space | Dot

datatype quant = Greedy | Lazy

datatype atom = Lit char | Star quant cls | GroupStar quant cls

record flags =
  ignorecase :: bool
  dotall :: bool

fun cls_match :: "flags \<Rightarrow> cls \<Rightarrow> char \<Rightarrow> bool" where
  "cls_match fl Space x = isspace x"
| "cls_match fl Dot x = (dotall fl \<or> x \<noteq> CHR ''\<newline>'')"

definition lit_match :: "flags \<Rightarrow> char \<Rightarrow> char \<Rightarrow> bool" where
  "lit_match fl c x = (if ignorecase fl then lower_char x = lower_char c else x = c)"

text \<open>One more character at the front of the group that is open.\<close>

fun grow :: "char \<Rightarrow> string list \<Rightarrow> string list" where
  "grow x [] = []"
| "grow x (c # g) = (x # c) # g"

text \<open>
  \<open>re_match\<close> is the backtracking match of a pattern at the start of a text. A greedy
  star first takes a character and gives it back only when the rest of the pattern fails;
  a lazy star first tries the rest of the pattern and takes a character only when that
  fails. The result is the list of the groups of the first match found in that order.
\<close>

fun re_match :: "flags \<Rightarrow> atom list \<Rightarrow> string \<Rightarrow> string list option" where
  "re_match fl [] s = Some []"
| "re_match fl (Lit c # p) [] = None"
| "re_match fl (Lit c # p) (x # xs) = (if lit_match fl c x then re_match fl p xs else None)"
| "re_match fl (Star q k # p) [] = re_match fl p []"
| "re_match fl (Star Greedy k # p) (x # xs) =
     (if cls_match fl k x then
        (case re_match fl (Star Greedy k # p) xs of
           Some g \<Rightarrow> Some g
         | None \<Rightarrow> re_match fl p (x # xs))
      else re_match fl p (x # xs))"
| "re_match fl (Star Lazy k # p) (x # xs) =
     (case re_match fl p (x # xs) of
        Some g \<Rightarrow> Some g
      | None \<Rightarrow> if cls_match fl k x then re_match fl (Star Lazy k # p) xs else None)"
| "re_match fl (GroupStar q k # p) [] = map_option (Cons []) (re_match fl p [])"
| "re_match fl (GroupStar Greedy k # p) (x # xs) =
     (if cls_match fl k x then
        (case re_match fl (GroupStar Greedy k # p) xs of
           Some g \<Rightarrow> Some (grow x g)
         | None \<Rightarrow> map_option (Cons []) (re_match fl p (x # xs)))
      else map_option (Cons []) (re_match fl p (x # xs)))"
| "re_match fl (GroupStar Lazy k # p) (x # xs) =
     (case re_match fl p (x # xs) of
        Some g \<Rightarrow> Some ([] # g)
      | None \<Rightarrow> if cls_match fl k x
                then map_option (grow x) (re_match fl (GroupStar Lazy k # p) xs) else None)"

text \<open>\<^verbatim>\<open>re.search\<close>: the match at the leftmost position that has one.\<close>

fun re_search :: "flags \<Rightarrow> atom list \<Rightarrow> string \<Rightarrow> string list option" where
  "re_search fl p [] = re_match fl p []"
| "re_search fl p (x # xs) =
     (case re_match fl p (x # xs) of Some g \<Rightarrow> Some g | None \<Rightarrow> re_search fl p xs)"

datatype error = IndexError | LookupError | UnicodeEncodeError | OSError

text \<open>\<^verbatim>\<open>match.group(1)\<close>.\<close>

definition group1 :: "string list \<Rightarrow> error + string" where
  "group1 m = (case m of [] \<Rightarrow> Inl IndexError | c # _ \<Rightarrow> Inr c)"

section \<open>The response extractor\<close>

text \<open>
  Line 195 of \<^verbatim>\<open>parse_and_save_ps1\<close>:
  \<^verbatim>\<open>re.search(r'```powershell\s*(.*?)\s*```', ai_code, re.DOTALL | re.IGNORECASE)\<close>
\<close>

definition fence :: string where
  "fence = ''```''"

definition marker :: string where
  "marker = ''```powershell''"

definition code_block :: "atom list" where
  "code_block = map Lit marker
     @ [Star Greedy Space, GroupStar Lazy Dot, Star Greedy Space] @ map Lit fence"

definition re_flags :: flags where
  "re_flags = \<lparr>ignorecase = True, dotall = True\<rparr>"

text \<open>
  Lines 195 to 201: the value of \<^verbatim>\<open>ps1_code\<close> before the header. With a match it is
  the stripped group, without one the stripped reply.
\<close>

definition ps1_code :: "string \<Rightarrow> error + string" where
  "ps1_code ai_code =
     (case re_search re_flags code_block ai_code of
        Some m \<Rightarrow> (case group1 m of Inl e \<Rightarrow> Inl e | Inr c \<Rightarrow> Inr (strip c))
      | None \<Rightarrow> Inr (strip ai_code))"

text \<open>Line 204: the file name is the short title between \<^verbatim>\<open>command_\<close> and \<^verbatim>\<open>.ps1\<close>.\<close>

definition file_name :: "string \<Rightarrow> string" where
  "file_name short_title = ''command_'' @ short_title @ ''.ps1''"

text \<open>
  Lines 211 to 217: the header, an f-string that starts with a line break and ends with
  four spaces. Its second and its sixth line are a rule, a number sign and 79 equals
  signs; \<open>current_date\<close> is the formatted time that \<^verbatim>\<open>strftime\<close> returned
  for \<^verbatim>\<open>datetime.datetime.now()\<close>.
\<close>

definition rule_line :: string where
  "rule_line = CHR ''#'' # replicate 79 CHR ''=''"

definition header :: "string \<Rightarrow> string" where
  "header current_date =
     ''\<newline>''
     @ rule_line @ ''\<newline>''
     @ ''# Script Generated by Google Gemini 2 PowerShell Command Gen\<newline>''
     @ ''# Date: ''
     @ current_date
     @ ''\<newline>''
     @ ''# Author: Elias Andrade AKA Chaos4455\<newline>''
     @ rule_line @ ''\<newline>''
     @ ''    ''"

text \<open>
  The world outside: the clock as the formatted time it shows, the files as the bytes
  under each name, the names under which the file system lets the program create a file,
  the codecs that the interpreter knows by name (a codec encodes a text or refuses it) and
  the line separator of the platform.
\<close>

record world =
  now :: string
  files :: "string \<rightharpoonup> nat list"
  creatable :: "string \<Rightarrow> bool"
  codecs :: "string \<rightharpoonup> (string \<Rightarrow> nat list option)"
  linesep :: string

text \<open>
  Lines 222 to 224: the file is opened for writing in text mode and the code is written.
  When the file cannot be created, \<^verbatim>\<open>open\<close> raises and nothing changes. Otherwise
  the file is created empty, or emptied, before the encoding is looked up: an unknown
  encoding and a text that the codec refuses both raise and leave the empty file behind.
  Text mode writes each line break as the line separator of the platform. A failure
  carries the exception and the world it leaves.
\<close>

definition write_file ::
  "world \<Rightarrow> string \<Rightarrow> string \<Rightarrow> string \<Rightarrow> (error \<times> world) + world" where
  "write_file w name encoding text_written =
     (if \<not> creatable w name then Inl (OSError, w)
      else
        (let truncated = w\<lparr>files := (files w)(name \<mapsto> [])\<rparr> in
         case codecs w encoding of
           None \<Rightarrow> Inl (LookupError, truncated)
         | Some codec \<Rightarrow>
             (case codec (replace CHR ''\<newline>'' (linesep w) text_written) of
                None \<Rightarrow> Inl (UnicodeEncodeError, truncated)
              | Some written \<Rightarrow> Inr (w\<lparr>files := (files w)(name \<mapsto> written)\<rparr>))))"

text \<open>
  \<open>refuses\<close> is the failure of that write, when it fails; \<open>disk_bytes\<close> are the bytes
  that a text has on disk in an encoding, when the codec is known and takes the text.
\<close>

definition refuses :: "world \<Rightarrow> string \<Rightarrow> string \<Rightarrow> string \<Rightarrow> (error \<times> world) option" where
  "refuses w name encoding text_written =
     (case write_file w name encoding text_written of Inl failure \<Rightarrow> Some failure | Inr w' \<Rightarrow> None)"

definition disk_bytes :: "world \<Rightarrow> string \<Rightarrow> string \<Rightarrow> nat list option" where
  "disk_bytes w encoding text_written =
     (case codecs w encoding of
        None \<Rightarrow> None
      | Some codec \<Rightarrow> codec (replace CHR ''\<newline>'' (linesep w) text_written))"

definition parse_and_save_ps1 ::
  "world \<Rightarrow> string \<Rightarrow> string \<Rightarrow> string \<Rightarrow> bool
     \<Rightarrow> (error \<times> world) + ((string \<times> string) \<times> world)" where
  "parse_and_save_ps1 w ai_code short_title encoding add_header =
     (case ps1_code ai_code of
        Inl e \<Rightarrow> Inl (e, w)
      | Inr code \<Rightarrow>
          (let name = file_name short_title;
               code' = (if add_header then header (now w) @ code else code)
           in case write_file w name encoding code' of
                Inl failure \<Rightarrow> Inl failure
              | Inr w' \<Rightarrow> Inr ((name, code'), w')))"

section \<open>The model client and the prompt\<close>

text \<open>
  Lines 58 to 73: the request is the model name, the generation configuration, an empty
  history and the message. The service is a parameter: it answers with the text of the
  response (\<open>Inr\<close>) or raises (\<open>Inl\<close>, with the text of the exception). The
  temperature and the nucleus threshold are only handed on, so they are rationals here.
\<close>

record generation_config =
  cfg_temperature :: rat
  cfg_top_p :: rat
  cfg_top_k :: int
  cfg_response_mime_type :: string
  cfg_max_output_tokens :: int

type_synonym model_api = "string \<Rightarrow> generation_config \<Rightarrow> string list \<Rightarrow> string \<Rightarrow> string + string"

text \<open>What the page shows in the branch of the button; the layout is left out.\<close>

datatype ui =
    Error_communicating string
  | Error_no_description
  | Markdown_generated
  | Code string
  | Download_button string string
  | Error_generating

text \<open>
  \<^verbatim>\<open>send_message_to_model\<close>: every exception in the \<^verbatim>\<open>try\<close> block is caught, shown
  and turned into \<^verbatim>\<open>None\<close>.
\<close>

definition send_message_to_model ::
  "model_api \<Rightarrow> string \<Rightarrow> string \<Rightarrow> rat \<Rightarrow> int \<Rightarrow> string option \<times> ui list" where
  "send_message_to_model api message model_name temperature max_tokens =
     (let GENERATION_CONFIG = \<lparr>cfg_temperature = temperature, cfg_top_p = 8 / 10, cfg_top_k = 40,
            cfg_response_mime_type = ''text/plain'', cfg_max_output_tokens = max_tokens\<rparr>
      in case api model_name GENERATION_CONFIG [] message of
           Inr response_text \<Rightarrow> (Some response_text, [])
         | Inl e \<Rightarrow> (None, [Error_communicating e]))"

text \<open>\<^verbatim>\<open>str\<close> of a \<^verbatim>\<open>bool\<close>, as an f-string renders it.\<close>

definition str_bool :: "bool \<Rightarrow> string" where
  "str_bool b = (if b then ''True'' else ''False'')"

text \<open>Lines 120 to 159: the prompt, an f-string with seven fields.\<close>

definition build_prompt ::
  "string \<Rightarrow> string \<Rightarrow> string \<Rightarrow> string \<Rightarrow> string \<Rightarrow> string \<Rightarrow> bool \<Rightarrow> string" where
  "build_prompt prompt_base detail_level script_type security_level prompt_detail log_level
       add_error_handling =
     ''\<newline>''
     @ ''    You are a Powershell expert. Your task is to generate a single Powershell command based on the following description:\<newline>''
     @ ''\<newline>''
     @ ''    **Goal:** Create the most complete, detailed, and efficient Powershell command possible, considering all variables and scenarios.\<newline>''
     @ ''\<newline>''
     @ ''    **Command Description:** ''
     @ prompt_base
     @ ''\<newline>''
     @ ''\<newline>''
     @ ''    **Detail Level:** ''
     @ detail_level
     @ ''\<newline>''
     @ ''    **Script Type:** ''
     @ script_type
     @ ''\<newline>''
     @ ''    **Security Level:** ''
     @ security_level
     @ ''\<newline>''
     @ ''    **Prompt Detail Level**:''
     @ prompt_detail
     @ ''\<newline>''
     @ ''\<newline>''
     @ ''    **Response Format:**\<newline>''
     @ ''    - Respond in Markdown format, including a Powershell code block with its original formatting, without line breaks.\<newline>''
     @ ''    - The Powershell code block must be delimited by ```powershell and ```.\<newline>''
     @ ''    - Do not include comments, explanations, or any other text outside the code block.\<newline>''
     @ ''    - The Powershell code must maintain its full vertical formatting, respecting indentation and line breaks.\<newline>''
     @ ''    - The code must be realistic, using real-world examples, data, and situations.\<newline>''
     @ ''    - Explore different approaches, techniques, and advanced practices.\<newline>''
     @ ''    - If generating a command with a chain of commands, do not use semicolons at the end or beginning.\<newline>''
     @ ''    - If necessary, use the pipe '' @ [CHR 0x22] @ ''|'' @ [CHR 0x22] @ '' to chain commands.\<newline>''
     @ ''    - Do not use any special formatting in the result, only the code.\<newline>''
     @ ''    - If the description asks to create a file, the command should create the file directly in the file system and not use a screen output for this.\<newline>''
     @ ''    - If the description asks to read a file, the command should read the file directly from the file system and not use a screen input for this.\<newline>''
     @ ''    - Use advanced PowerShell resources, such as pipelines, variables, functions, and script blocks, when necessary.\<newline>''
     @ ''     - The default operating system is Windows Server 2016, and the default Powershell version is 7, unless the user specifies otherwise.\<newline>''
     @ ''     - Make sure that the generated command is secure and follows the best Powershell practices.\<newline>''
     @ ''\<newline>''
     @ ''    **Log Level**:''
     @ log_level
     @ ''\<newline>''
     @ ''    **Error Handling**:''
     @ str_bool add_error_handling
     @ ''\<newline>''
     @ ''\<newline>''
     @ ''     **Important:**\<newline>''
     @ ''    - Generate only one command at a time.\<newline>''
     @ ''    - Create the longest, most complete, and detailed code possible.\<newline>''
     @ ''    - Consider all the details of the request, expanding the response and improving the command.\<newline>''
     @ ''     - Use contextual information (such as PowerShell version and operating system) to generate the command.\<newline>''
     @ ''     - If possible, use incremental reasoning to add improvements, expansions, and considerations to your code.\<newline>''
     @ ''     - Use the history of the conversations so that the response is incremental.\<newline>''
     @ ''\<newline>''
     @ ''    ''"

definition generate_powershell_command ::
  "model_api \<Rightarrow> string \<Rightarrow> string \<Rightarrow> string \<Rightarrow> string \<Rightarrow> string \<Rightarrow> rat \<Rightarrow> int \<Rightarrow> string
     \<Rightarrow> string \<Rightarrow> bool \<Rightarrow> bool \<Rightarrow> string \<Rightarrow> string option \<times> ui list" where
  "generate_powershell_command api prompt_base detail_level script_type security_level
       model_name temperature max_tokens prompt_detail encoding add_header add_error_handling
       log_level =
     (let prompt = build_prompt prompt_base detail_level script_type security_level
                     prompt_detail log_level add_error_handling
      in send_message_to_model api prompt model_name temperature max_tokens)"

section \<open>The page\<close>

text \<open>
  Line 390: the first 30 characters of the description, stripped, each space replaced by
  an underscore, in lower case.
\<close>

definition short_title :: "string \<Rightarrow> string" where
  "short_title prompt_base = lower (replace CHR '' '' ''_'' (strip (take 30 prompt_base)))"

text \<open>Lines 350 to 355: a preset other than \<^verbatim>\<open>None\<close> goes in front of the description.\<close>

definition with_preset :: "string \<Rightarrow> string \<Rightarrow> string" where
  "with_preset prompt_presets prompt_base =
     (if prompt_presets \<noteq> ''None''
      then (if prompt_base \<noteq> [] then prompt_presets @ '' , '' @ prompt_base else prompt_presets)
      else prompt_base)"

text \<open>The values of the widgets in one run of the script.\<close>

record widgets =
  model_name :: string
  temperature :: rat
  max_tokens :: int
  prompt_presets :: string
  prompt_detail :: string
  powershell_version :: string
  operating_system :: string
  encoding :: string
  add_header :: bool
  add_error_handling :: bool
  log_level :: string
  detail_level :: string
  script_type :: string
  security_level :: string
  prompt_base :: string
  button :: bool

text \<open>
  \<^verbatim>\<open>main\<close>, lines 347 to 403. \<^verbatim>\<open>if ai_code:\<close> holds for a reply that is neither
  \<^verbatim>\<open>None\<close> nor empty. An exception of the write leaves \<^verbatim>\<open>main\<close> with the world
  that the write left.
\<close>

definition main ::
  "model_api \<Rightarrow> world \<Rightarrow> widgets \<Rightarrow> (error \<times> world) + (ui list \<times> world)" where
  "main api w wd =
     (let description = with_preset (prompt_presets wd) (prompt_base wd) in
      if button wd then
        if description = [] then Inr ([Error_no_description], w)
        else
          (case generate_powershell_command api description (detail_level wd) (script_type wd)
                  (security_level wd) (model_name wd) (temperature wd) (max_tokens wd)
                  (prompt_detail wd) (encoding wd) (add_header wd) (add_error_handling wd)
                  (log_level wd) of
             (ai_code, shown) \<Rightarrow>
               (case ai_code of
                  None \<Rightarrow> Inr (shown @ [Error_generating], w)
                | Some reply \<Rightarrow>
                    if reply = [] then Inr (shown @ [Error_generating], w)
                    else
                      (case parse_and_save_ps1 w reply (short_title description)
                              (encoding wd) (add_header wd) of
                         Inl failure \<Rightarrow> Inl failure
                       | Inr ((file_name_ps1, body), w') \<Rightarrow>
                           Inr (shown @ [Markdown_generated, Code reply,
                                  Download_button file_name_ps1 body], w'))))
      else Inr ([], w))"


section \<open>Notions for the statements\<close>

text \<open>
  \<open>before_fence s\<close> is the text in front of the first fence of \<open>s\<close>, \<open>opens s\<close> says that
  \<open>s\<close> starts with the marker in some letter case, \<open>rstrip\<close> is \<^verbatim>\<open>s.rstrip()\<close>.
\<close>

fun before_fence :: "string \<Rightarrow> string option" where
  "before_fence [] = None"
| "before_fence (x # xs) =
     (if prefix fence (x # xs) then Some [] else map_option (Cons x) (before_fence xs))"

definition opens :: "string \<Rightarrow> bool" where
  "opens s = (map lower_char (take 13 s) = marker)"

definition rstrip :: "string \<Rightarrow> string" where
  "rstrip s = rev (dropWhile isspace (rev s))"

section \<open>Example inputs\<close>

text \<open>
  Two codecs: UTF-8, and code page 1252 on code points below 256, where 0 to 127 and 160
  to 255 are their own byte and 128 to 159 are refused. The first world knows UTF-8 and
  separates lines by a line feed; the second also knows code page 1252 under the name
  \<^verbatim>\<open>ansi\<close> and separates lines by carriage return and line feed.
\<close>

definition utf8_codec :: "string \<Rightarrow> nat list option" where
  "utf8_codec s = Some (utf8 s)"


definition example_world :: world where
  "example_world = \<lparr>now = ''2025-01-01 12:00:00'', files = Map.empty,
     creatable = (\<lambda>name. True), codecs = [''utf-8'' \<mapsto> utf8_codec],
     linesep = ''\<newline>''\<rparr>"


definition example_widgets :: widgets where
  "example_widgets = \<lparr>model_name = ''gemini-2.0-flash-exp'', temperature = 7 / 10,
     max_tokens = 8192, prompt_presets = ''None'', prompt_detail = ''Default'',
     powershell_version = ''7'', operating_system = ''Windows Server 2016'',
     encoding = ''utf-8'', add_header = True, add_error_handling = True,
     log_level = ''Default'', detail_level = ''Default'', script_type = ''More automatic'',
     security_level = ''Medium'', prompt_base = ''List all running processes'',
     button = True\<rparr>"

definition example_api :: model_api where
  "example_api = (\<lambda>name cfg history message. Inr ''```powershell\<newline>Get-Process\<newline>```'')"

definition failing_api :: model_api where
  "failing_api = (\<lambda>name cfg history message. Inl ''503 Service Unavailable'')"

section \<open>Lemmas on the pattern\<close>

lemma isspace_fence_char: "\<not> isspace CHR ''`''"
  by (simp add: isspace_def)

lemma isspace_not_tick: "isspace x \<Longrightarrow> x \<noteq> CHR ''`''"
  using isspace_fence_char by blast

lemma of_char_lower: "isupper c \<Longrightarrow> of_char (lower_char c) = (of_char c :: nat) + 32"
  by (auto simp add: lower_char_def isupper_def Let_def)

lemma lower_char_tick: "lower_char x = CHR ''`'' \<longleftrightarrow> x = CHR ''`''"
proof
  assume h: "lower_char x = CHR ''`''"
  show "x = CHR ''`''"
  proof (cases "isupper x")
    case True
    then have "(of_char (lower_char x) :: nat) = of_char x + 32" by (rule of_char_lower)
    with h have "(of_char x :: nat) = 64" by simp
    with True show ?thesis by (simp add: isupper_def)
  next
    case False
    with h show ?thesis by (simp add: lower_char_def)
  qed
next
  assume "x = CHR ''`''"
  then show "lower_char x = CHR ''`''" by (simp add: lower_char_def isupper_def)
qed

lemma lower_marker: "map lower_char marker = marker"
  by (simp add: marker_def lower_char_def isupper_def)

lemma lower_fence: "map lower_char s = fence \<longleftrightarrow> s = fence"
  by (auto simp add: fence_def lower_char_tick map_eq_Cons_conv)

lemma re_match_lits:
  "re_match fl (map Lit cs @ p) s =
     (if list_all2 (lit_match fl) cs (take (length cs) s)
      then re_match fl p (drop (length cs) s) else None)"
proof (induction cs arbitrary: s)
  case Nil
  show ?case by simp
next
  case (Cons c cs)
  show ?case by (cases s) (simp_all add: Cons.IH)
qed

lemma lit_match_ignorecase: "lit_match re_flags = (\<lambda>c x. lower_char x = lower_char c)"
  by (intro ext) (simp add: lit_match_def re_flags_def)

lemma list_all2_lower:
  "list_all2 (\<lambda>c x. lower_char x = lower_char c) cs xs \<longleftrightarrow> map lower_char xs = map lower_char cs"
proof (induction cs arbitrary: xs)
  case Nil
  show ?case by simp
next
  case (Cons c cs)
  show ?case by (cases xs) (simp_all add: Cons.IH)
qed

lemma lits_ignorecase:
  "list_all2 (lit_match re_flags) cs xs \<longleftrightarrow> map lower_char xs = map lower_char cs"
  by (simp only: lit_match_ignorecase list_all2_lower)

lemma take_fence: "take 3 s = fence \<longleftrightarrow> prefix fence s"
  by (metis append_take_drop_id fence_def length_Cons list.size(3) numeral_3_eq_3 prefix_def append_eq_conv_conj)

lemma re_match_fence:
  "re_match re_flags (map Lit fence) s = (if prefix fence s then Some [] else None)"
proof -
  have "re_match re_flags (map Lit fence @ []) s =
      (if list_all2 (lit_match re_flags) fence (take (length fence) s)
       then re_match re_flags [] (drop (length fence) s) else None)"
    by (rule re_match_lits)
  moreover have "list_all2 (lit_match re_flags) fence (take (length fence) s) \<longleftrightarrow> prefix fence s"
  proof -
    have "list_all2 (lit_match re_flags) fence (take (length fence) s)
        \<longleftrightarrow> map lower_char (take 3 s) = fence"
      by (simp add: lits_ignorecase fence_def lower_char_def isupper_def numeral_3_eq_3)
    then show ?thesis by (simp add: lower_fence take_fence)
  qed
  ultimately show ?thesis by simp
qed

lemma prefix_fence_tick: "prefix fence (x # xs) \<Longrightarrow> x = CHR ''`''"
  by (simp add: fence_def)

lemma prefix_fence_nospace: "prefix fence (x # xs) \<Longrightarrow> \<not> isspace x"
  using prefix_fence_tick isspace_fence_char by blast

lemma re_match_greedy:
  "re_match fl (Star Greedy k # p) (x # xs) =
     (if cls_match fl k x then
        (case re_match fl (Star Greedy k # p) xs of
           Some g \<Rightarrow> Some g
         | None \<Rightarrow> re_match fl p (x # xs))
      else re_match fl p (x # xs))"
  by simp

lemma re_match_lazy_group:
  "re_match fl (GroupStar Lazy k # p) (x # xs) =
     (case re_match fl p (x # xs) of
        Some g \<Rightarrow> Some ([] # g)
      | None \<Rightarrow> if cls_match fl k x
                then map_option (grow x) (re_match fl (GroupStar Lazy k # p) xs) else None)"
  by simp

lemma re_match_closing:
  "re_match re_flags (Star Greedy Space # map Lit fence) s =
     (if prefix fence (dropWhile isspace s) then Some [] else None)"
proof (induction s)
  case Nil
  show ?case by (simp add: re_match_fence)
next
  case (Cons x xs)
  show ?case
  proof (cases "isspace x")
    case True
    then have "\<not> prefix fence (x # xs)" using prefix_fence_nospace by blast
    with True show ?thesis by (simp add: Cons.IH re_match_fence)
  next
    case False
    then show ?thesis by (simp add: re_match_fence)
  qed
qed

lemma before_fence_spaces:
  "prefix fence (dropWhile isspace s) \<Longrightarrow> before_fence s = Some (takeWhile isspace s)"
proof (induction s)
  case Nil
  then show ?case by (simp add: fence_def)
next
  case (Cons x xs)
  show ?case
  proof (cases "isspace x")
    case True
    then have "\<not> prefix fence (x # xs)" using prefix_fence_nospace by blast
    with True Cons show ?thesis by simp
  next
    case False
    with Cons.prems show ?thesis by simp
  qed
qed

lemma before_fence_split:
  "before_fence s = Some u \<Longrightarrow> \<exists>r. s = u @ fence @ r"
proof (induction s arbitrary: u)
  case Nil
  then show ?case by simp
next
  case (Cons x xs)
  show ?case
  proof (cases "prefix fence (x # xs)")
    case True
    with Cons.prems have "u = []" by simp
    with True show ?thesis by (auto simp add: prefix_def)
  next
    case False
    with Cons.prems obtain v where v: "before_fence xs = Some v" "u = x # v" by auto
    from Cons.IH [OF v(1)] obtain r where "xs = v @ fence @ r" by blast
    with v show ?thesis by simp
  qed
qed

lemma rstrip_spaces: "\<forall>c \<in> set u. isspace c \<Longrightarrow> rstrip u = []"
  by (simp add: rstrip_def)

lemma rstrip_Cons:
  "\<not> (isspace x \<and> (\<forall>c \<in> set u. isspace c)) \<Longrightarrow> rstrip (x # u) = x # rstrip u"
  by (auto simp add: rstrip_def dropWhile_append3 dropWhile_append)

lemma dropWhile_spaces_fence:
  "\<forall>c \<in> set u. isspace c \<Longrightarrow> dropWhile isspace (u @ fence @ r) = fence @ r"
  by (simp add: dropWhile_append fence_def isspace_fence_char)

lemma re_match_group:
  "re_match re_flags (GroupStar Lazy Dot # Star Greedy Space # map Lit fence) s =
     map_option (\<lambda>u. [rstrip u]) (before_fence s)"
proof (induction s)
  case Nil
  show ?case by (simp add: re_match_closing fence_def)
next
  case (Cons x xs)
  show ?case
  proof (cases "prefix fence (dropWhile isspace (x # xs))")
    case True
    then have "before_fence (x # xs) = Some (takeWhile isspace (x # xs))"
      by (rule before_fence_spaces)
    moreover have "rstrip (takeWhile isspace (x # xs)) = []"
      by (rule rstrip_spaces) (auto dest: set_takeWhileD)
    moreover have "re_match re_flags (Star Greedy Space # map Lit fence) (x # xs) = Some []"
      using True by (simp only: re_match_closing if_True)
    then have "re_match re_flags (GroupStar Lazy Dot # Star Greedy Space # map Lit fence) (x # xs)
        = Some [[]]"
      by (simp only: re_match_lazy_group option.case)
    ultimately show ?thesis by (simp only: option.map)
  next
    case False
    have nf: "\<not> prefix fence (x # xs)"
    proof
      assume p: "prefix fence (x # xs)"
      then have "\<not> isspace x" by (rule prefix_fence_nospace)
      with p False show False by simp
    qed
    have step: "re_match re_flags (GroupStar Lazy Dot # Star Greedy Space # map Lit fence) (x # xs)
        = map_option (grow x) (map_option (\<lambda>u. [rstrip u]) (before_fence xs))"
    proof -
      have "re_match re_flags (Star Greedy Space # map Lit fence) (x # xs) = None"
        using False by (simp only: re_match_closing if_False)
      moreover have "cls_match re_flags Dot x" by (simp add: re_flags_def)
      ultimately show ?thesis
        by (simp only: re_match_lazy_group option.case if_True Cons.IH)
    qed
    show ?thesis
    proof (cases "before_fence xs")
      case None
      with step nf show ?thesis by simp
    next
      case (Some u)
      from before_fence_split [OF Some] obtain r where r: "xs = u @ fence @ r" by blast
      have "\<not> (isspace x \<and> (\<forall>c \<in> set u. isspace c))"
      proof
        assume a: "isspace x \<and> (\<forall>c \<in> set u. isspace c)"
        then have "dropWhile isspace (x # xs) = fence @ r"
          using dropWhile_spaces_fence [of u r] r by simp
        with False show False by simp
      qed
      then have "rstrip (x # u) = x # rstrip u" by (rule rstrip_Cons)
      with step nf Some show ?thesis by simp
    qed
  qed
qed

lemma strip_rstrip: "strip s = rstrip (dropWhile isspace s)"
  by (simp add: strip_def rstrip_def)

lemma re_match_body:
  "re_match re_flags (Star Greedy Space # GroupStar Lazy Dot # Star Greedy Space # map Lit fence) s =
     map_option (\<lambda>u. [strip u]) (before_fence s)"
proof (induction s)
  case Nil
  have "re_match re_flags (GroupStar Lazy Dot # Star Greedy Space # map Lit fence) [] = None"
    by (simp only: re_match_group before_fence.simps option.map)
  then show ?case by simp
next
  case (Cons x xs)
  note grp = re_match_group [of "x # xs"]
  show ?case
  proof (cases "isspace x")
    case True
    then have nf: "\<not> prefix fence (x # xs)" using prefix_fence_nospace by blast
    show ?thesis
    proof (cases "before_fence xs")
      case None
      have "before_fence (x # xs) = None" using None nf by simp
      with True None grp show ?thesis
        by (simp only: re_match_greedy Cons.IH cls_match.simps if_True option.map option.case)
    next
      case (Some u)
      have "before_fence (x # xs) = Some (x # u)" using Some nf by simp
      moreover have "strip (x # u) = strip u" using True by (simp add: strip_def)
      ultimately show ?thesis using True Some
        by (simp only: re_match_greedy Cons.IH cls_match.simps if_True option.map option.case)
    qed
  next
    case False
    have "rstrip u = strip u" if "before_fence (x # xs) = Some u" for u
    proof (cases "prefix fence (x # xs)")
      case True
      with that show ?thesis by (simp add: strip_rstrip)
    next
      case nf: False
      with that obtain v where "u = x # v" by auto
      with False show ?thesis by (simp add: strip_rstrip)
    qed
    then have "map_option (\<lambda>u. [rstrip u]) (before_fence (x # xs))
        = map_option (\<lambda>u. [strip u]) (before_fence (x # xs))"
      by (cases "before_fence (x # xs)") simp_all
    with False grp show ?thesis
      by (simp only: re_match_greedy cls_match.simps if_False)
  qed
qed

lemma re_match_code_block:
  "re_match re_flags code_block s =
     (if opens s then map_option (\<lambda>u. [strip u]) (before_fence (drop 13 s)) else None)"
proof -
  have len: "length marker = 13" by (simp add: marker_def)
  have "list_all2 (lit_match re_flags) marker (take (length marker) s) \<longleftrightarrow> opens s"
    by (simp only: lits_ignorecase lower_marker opens_def len)
  then show ?thesis
    unfolding code_block_def
    by (simp only: re_match_lits append_Cons append_Nil re_match_body len)
qed

lemma take_prefix_iff: "take (length m) t = m \<longleftrightarrow> prefix m t"
  by (metis append_eq_conv_conj prefix_def)

lemma length_marker: "length marker = 13"
  by (simp add: marker_def)

lemma opens_prefix: "opens s \<longleftrightarrow> prefix marker (lower s)"
proof -
  have "map lower_char (take 13 s) = take (length marker) (lower s)"
    by (simp add: lower_def take_map length_marker)
  then show ?thesis by (simp only: opens_def take_prefix_iff)
qed

lemma opens_Nil: "\<not> opens []"
  by (simp add: opens_def marker_def)

lemma re_search_Cons:
  "re_search fl p (x # xs) =
     (case re_match fl p (x # xs) of Some g \<Rightarrow> Some g | None \<Rightarrow> re_search fl p xs)"
  by simp

lemma re_search_no_marker:
  "\<not> sublist marker (lower s) \<Longrightarrow> re_search re_flags code_block s = None"
proof (induction s)
  case Nil
  show ?case by (simp add: re_match_code_block opens_Nil)
next
  case (Cons x xs)
  from Cons.prems have "\<not> prefix marker (lower (x # xs))" and "\<not> sublist marker (lower xs)"
    by (simp_all add: lower_def sublist_Cons_right)
  then have "\<not> opens (x # xs)" and "re_search re_flags code_block xs = None"
    using Cons.IH by (simp_all add: opens_prefix)
  then show ?case by (simp only: re_search_Cons re_match_code_block if_False option.case)
qed

lemma before_fence_None: "before_fence s = None \<longleftrightarrow> \<not> sublist fence s"
proof (induction s)
  case Nil
  show ?case by (simp add: fence_def)
next
  case (Cons x xs)
  then show ?case by (simp add: sublist_Cons_right)
qed

lemma sublist_drop_drop: "sublist t (drop (Suc n) s) \<Longrightarrow> sublist t (drop n s)"
proof -
  assume "sublist t (drop (Suc n) s)"
  moreover have "sublist (drop (Suc n) s) (drop n s)"
    by (metis drop_drop plus_1_eq_Suc sublist_drop)
  ultimately show ?thesis by (rule sublist_order.order_trans)
qed

lemma re_search_no_fence:
  "\<not> sublist fence (drop 13 s) \<Longrightarrow> re_search re_flags code_block s = None"
proof (induction s)
  case Nil
  show ?case by (simp add: re_match_code_block opens_Nil)
next
  case (Cons x xs)
  from Cons.prems have "before_fence (drop 13 (x # xs)) = None"
    using before_fence_None by blast
  then have m: "re_match re_flags code_block (x # xs) = None"
    by (simp only: re_match_code_block option.map if_cancel)
  have "drop 13 (x # xs) = drop 12 xs" by simp
  with Cons.prems have "\<not> sublist fence (drop 12 xs)" by simp
  then have "\<not> sublist fence (drop (Suc 12) xs)" using sublist_drop_drop by blast
  then have "re_search re_flags code_block xs = None" using Cons.IH by simp
  with m show ?case by (simp only: re_search_Cons option.case)
qed

lemma marker_no_overlap:
  assumes "0 < n" and "n < 13"
  shows "take (13 - n) marker \<noteq> drop n marker"
proof -
  from assms have "n \<in> {1, 2, 3, 4, 5, 6, 7, 8, 9, 10, 11, 12}" by simp arith
  then show ?thesis by (auto simp add: marker_def)
qed

lemma opens_not_before:
  assumes v: "v \<noteq> []" and nm: "\<not> sublist marker (lower v)" and m: "lower M = marker"
  shows "\<not> opens (v @ M @ t)"
proof
  assume "opens (v @ M @ t)"
  then have p: "prefix marker (lower v @ marker @ lower t)"
    using m by (simp add: opens_prefix lower_def)
  show False
  proof (cases "13 \<le> length v")
    case True
    then have "length marker \<le> length (lower v)" by (simp add: length_marker lower_def)
    moreover have "prefix (lower v) (lower v @ marker @ lower t)" by simp
    ultimately have "prefix marker (lower v)" using p prefix_length_prefix by blast
    with nm show False by blast
  next
    case False
    define n where "n = length v"
    have n: "0 < n" "n < 13" using v False by (simp_all add: n_def)
    from p have "take (length marker) (lower v @ marker @ lower t) = marker"
      by (simp only: take_prefix_iff)
    then have "lower v @ take (13 - n) marker = marker"
      using n by (simp add: length_marker lower_def n_def)
    then have "drop n (lower v @ take (13 - n) marker) = drop n marker" by simp
    then have "take (13 - n) marker = drop n marker" by (simp add: n_def lower_def)
    with marker_no_overlap [OF n] show False by blast
  qed
qed

lemma re_search_skip:
  assumes "\<not> sublist marker (lower pre)" and "lower M = marker"
  shows "re_search re_flags code_block (pre @ M @ t) = re_search re_flags code_block (M @ t)"
  using assms(1)
proof (induction pre)
  case Nil
  show ?case by simp
next
  case (Cons x pre)
  have "\<not> opens ((x # pre) @ M @ t)"
    using Cons.prems assms(2) by (intro opens_not_before) simp_all
  then have m: "re_match re_flags code_block (x # pre @ M @ t) = None"
    by (simp add: re_match_code_block)
  from Cons.prems have "\<not> sublist marker (lower pre)"
    by (simp add: lower_def sublist_Cons_right)
  then have "re_search re_flags code_block (pre @ M @ t) = re_search re_flags code_block (M @ t)"
    by (rule Cons.IH)
  with m show ?case by (simp only: append_Cons re_search_Cons option.case)
qed

lemma marker_Cons: "lower M = marker \<Longrightarrow> \<exists>m ms. M = m # ms \<and> length M = 13 \<and> opens (M @ t)"
proof -
  assume m: "lower M = marker"
  then have l: "length M = 13" by (metis length_marker length_map lower_def)
  then have "M \<noteq> []" by auto
  moreover have "opens (M @ t)" using m l by (simp add: opens_def lower_def)
  ultimately show ?thesis using l by (cases M) auto
qed

lemma re_search_found:
  assumes "\<not> sublist marker (lower pre)" and "lower M = marker" and "before_fence t = Some u"
  shows "re_search re_flags code_block (pre @ M @ t) = Some [strip u]"
proof -
  from marker_Cons [OF assms(2), of t] obtain m ms
    where M: "M = m # ms" "length M = 13" "opens (M @ t)" by blast
  have "re_match re_flags code_block (M @ t) = Some [strip u]"
    using M(2,3) assms(3) by (simp add: re_match_code_block)
  then have "re_search re_flags code_block (M @ t) = Some [strip u]"
    unfolding M(1) by (simp only: append_Cons re_search_Cons option.case)
  then show ?thesis using re_search_skip [OF assms(1,2)] by simp
qed

lemma re_search_unclosed:
  assumes "\<not> sublist marker (lower pre)" and "lower M = marker" and "\<not> sublist fence t"
  shows "re_search re_flags code_block (pre @ M @ t) = None"
proof -
  have "length M = 13" using assms(2) by (metis length_marker length_map lower_def)
  then have "\<not> sublist fence (drop 13 (M @ t))" using assms(3) by simp
  then have "re_search re_flags code_block (M @ t) = None" by (rule re_search_no_fence)
  then show ?thesis using re_search_skip [OF assms(1,2)] by simp
qed

lemma before_fence_first:
  "\<not> sublist fence (u @ ''``'') \<Longrightarrow> before_fence (u @ fence @ r) = Some u"
proof (induction u)
  case Nil
  show ?case by (simp add: fence_def)
next
  case (Cons x u)
  from Cons.prems have np: "\<not> prefix fence (x # u @ ''``'')" and ns: "\<not> sublist fence (u @ ''``'')"
    by (simp_all add: sublist_Cons_right)
  have "\<not> prefix fence (x # u @ fence @ r)"
  proof
    assume "prefix fence (x # u @ fence @ r)"
    moreover have "prefix (x # u @ ''``'') (x # u @ fence @ r)" by (simp add: fence_def)
    moreover have "length fence \<le> length (x # u @ ''``'')" by (simp add: fence_def)
    ultimately have "prefix fence (x # u @ ''``'')" using prefix_length_prefix by blast
    with np show False by blast
  qed
  then show ?case using Cons.IH [OF ns] by simp
qed

lemma fence_in_marker_free: "\<not> sublist fence s \<Longrightarrow> \<not> sublist marker (lower s)"
proof
  assume nf: "\<not> sublist fence s" and "sublist marker (lower s)"
  then obtain a b where ab: "lower s = a @ marker @ b" by (auto simp add: sublist_def)
  define n where "n = length a"
  from ab have "drop n (lower s) = marker @ b" by (simp add: n_def)
  then have "map lower_char (drop n s) = marker @ b" by (simp add: lower_def drop_map)
  then have "take 3 (map lower_char (drop n s)) = fence" by (simp add: marker_def fence_def)
  then have "map lower_char (take 3 (drop n s)) = fence" by (simp add: take_map)
  then have "take 3 (drop n s) = fence" by (simp only: lower_fence)
  then have "prefix fence (drop n s)" by (simp only: take_fence)
  then have "sublist fence (drop n s)" by (rule prefix_imp_sublist)
  moreover have "sublist (drop n s) s" by (rule sublist_drop)
  ultimately have "sublist fence s" by (rule sublist_order.order_trans)
  with nf show False by blast
qed

lemma strip_padded:
  assumes "\<forall>c \<in> set a. isspace c" and "\<forall>c \<in> set b. isspace c"
    and "c \<noteq> []" and "\<not> isspace (hd c)" and "\<not> isspace (last c)"
  shows "strip (a @ c @ b) = c"
proof -
  from assms(3,4) have "dropWhile isspace (c @ b) = c @ b" by (cases c) simp_all
  with assms(1) have "dropWhile isspace (a @ c @ b) = c @ b" by (simp add: dropWhile_append)
  moreover have "dropWhile isspace (rev c) = rev c"
    using assms(3,5) by (cases c rule: rev_cases) simp_all
  then have "dropWhile isspace (rev b @ rev c) = rev c"
    using assms(2) by (simp add: dropWhile_append)
  ultimately show ?thesis by (simp add: strip_def)
qed

section \<open>Lemmas on the extractor and the page\<close>

lemma rstrip_prefix: "\<exists>w. t = rstrip t @ w"
proof -
  have "rstrip t @ rev (takeWhile isspace (rev t))
      = rev (takeWhile isspace (rev t) @ dropWhile isspace (rev t))"
    by (simp only: rstrip_def rev_append)
  also have "\<dots> = t" by (simp only: takeWhile_dropWhile_id rev_rev_ident)
  finally show ?thesis by metis
qed

lemma dropWhile_rstrip:
  assumes "dropWhile isspace t = t"
  shows "dropWhile isspace (rstrip t) = rstrip t"
proof (cases "rstrip t")
  case Nil
  then show ?thesis by simp
next
  case (Cons a as)
  from rstrip_prefix obtain w where "t = rstrip t @ w" by blast
  with Cons have t: "t = a # as @ w" by simp
  with assms have "\<not> isspace a" by (metis dropWhile_eq_Cons_conv)
  then show ?thesis by (simp add: Cons)
qed

lemma rstrip_idem: "rstrip (rstrip t) = rstrip t"
  by (simp add: rstrip_def)

lemma strip_idem: "strip (strip s) = strip s"
proof -
  have "dropWhile isspace (dropWhile isspace s) = dropWhile isspace s" by simp
  then have "dropWhile isspace (rstrip (dropWhile isspace s)) = rstrip (dropWhile isspace s)"
    by (rule dropWhile_rstrip)
  then show ?thesis by (simp add: strip_rstrip rstrip_idem)
qed

lemma ps1_code_found:
  assumes "\<not> sublist marker (lower pre)" and "lower M = marker" and "before_fence t = Some u"
  shows "ps1_code (pre @ M @ t) = Inr (strip u)"
  by (simp add: ps1_code_def re_search_found [OF assms] group1_def strip_idem)

lemma ps1_code_fallback:
  "re_search re_flags code_block raw = None \<Longrightarrow> ps1_code raw = Inr (strip raw)"
  by (simp add: ps1_code_def)

lemma parse_and_save_ps1_cases:
  assumes "ps1_code raw = Inr code"
  shows "case parse_and_save_ps1 w raw title enc hdr of
           Inl e \<Rightarrow> refuses w (file_name title) enc ((if hdr then header (now w) else []) @ code) = Some e
         | Inr ((name, body), w') \<Rightarrow> body = (if hdr then header (now w) else []) @ code"
  using assms by (simp add: parse_and_save_ps1_def refuses_def Let_def split: sum.split)

lemma re_search_group:
  "re_search re_flags code_block s = Some m \<Longrightarrow> \<exists>c. m = [c]"
proof (induction s)
  case Nil
  then show ?case by (simp add: re_match_code_block opens_Nil)
next
  case (Cons x xs)
  show ?case
  proof (cases "re_match re_flags code_block (x # xs)")
    case None
    with Cons show ?thesis by (simp only: re_search_Cons option.case)
  next
    case (Some g)
    with Cons.prems have "m = g" by (simp only: re_search_Cons option.case option.inject)
    with Some show ?thesis
      by (auto simp add: re_match_code_block split: if_splits)
  qed
qed

lemma ps1_code_total: "\<exists>code. ps1_code raw = Inr code"
proof (cases "re_search re_flags code_block raw")
  case None
  then show ?thesis by (simp add: ps1_code_def)
next
  case (Some m)
  from re_search_group [OF Some] obtain c where "m = [c]" by blast
  with Some show ?thesis by (simp add: ps1_code_def group1_def)
qed

lemma before_fence_ticks:
  "\<forall>c \<in> set u. c \<noteq> CHR ''`'' \<Longrightarrow> before_fence (u @ fence @ r) = Some u"
proof (induction u)
  case Nil
  show ?case by (simp add: fence_def)
next
  case (Cons x u)
  then have "x \<noteq> CHR ''`''" by simp
  then have "\<not> prefix fence (x # u @ fence @ r)" using prefix_fence_tick by blast
  with Cons show ?case by simp
qed

lemma write_file_Inr:
  "write_file w name enc t = Inr w' \<Longrightarrow>
     \<exists>written. disk_bytes w enc t = Some written
        \<and> w' = w\<lparr>files := (files w)(name \<mapsto> written)\<rparr>"
  by (auto simp add: write_file_def disk_bytes_def Let_def split: if_splits option.splits)

lemma parse_and_save_ps1_body:
  assumes "parse_and_save_ps1 w raw title enc hdr = Inr ((name, body), w')"
  shows "\<exists>code written. ps1_code raw = Inr code
           \<and> body = (if hdr then header (now w) else []) @ code
           \<and> name = file_name title
           \<and> disk_bytes w enc body = Some written
           \<and> w' = w\<lparr>files := (files w)(name \<mapsto> written)\<rparr>"
proof (cases "ps1_code raw")
  case (Inl e)
  with assms show ?thesis by (simp add: parse_and_save_ps1_def)
next
  case (Inr code)
  define b where "b = (if hdr then header (now w) else []) @ code"
  have b': "(if hdr then header (now w) @ code else code) = b" by (simp add: b_def)
  from assms Inr have r: "(case write_file w (file_name title) enc b of
      Inl failure \<Rightarrow> Inl failure
    | Inr w1 \<Rightarrow> Inr ((file_name title, b), w1)) = Inr ((name, body), w')"
    by (simp only: parse_and_save_ps1_def Let_def sum.case b')
  show ?thesis
  proof (cases "write_file w (file_name title) enc b")
    case (Inl failure)
    with r show ?thesis by simp
  next
    case (Inr w1)
    with r have e: "name = file_name title" "body = b" "w' = w1" by simp_all
    from write_file_Inr [OF Inr] obtain written
      where "disk_bytes w enc b = Some written"
        and "w1 = w\<lparr>files := (files w)(file_name title \<mapsto> written)\<rparr>"
      by blast
    with e \<open>ps1_code raw = Inr code\<close> show ?thesis by (simp add: b_def)
  qed
qed

lemma replace_same: "replace c [c] s = s"
  by (induction s) (simp_all add: replace_def)

lemma parse_and_save_ps1_example:
  assumes "ps1_code raw = Inr code"
  shows "parse_and_save_ps1 example_world raw title ''utf-8'' hdr =
     Inr ((file_name title, (if hdr then header ''2025-01-01 12:00:00'' else []) @ code),
       example_world\<lparr>files := (files example_world)(file_name title \<mapsto>
         utf8 ((if hdr then header ''2025-01-01 12:00:00'' else []) @ code))\<rparr>)"
proof -
  have "replace CHR ''\<newline>'' ''\<newline>'' t = t" for t by (rule replace_same)
  then show ?thesis
    using assms
    by (simp add: parse_and_save_ps1_def write_file_def example_world_def utf8_codec_def Let_def)
qed




section \<open>Properties\<close>

text \<open>
  C1, as stated: the short title of the description
  \<^verbatim>\<open>List all running processes that use CPU\<close> would be
  \<^verbatim>\<open>list_all_running_processes_that\<close> and the file name
  \<^verbatim>\<open>command_list_all_running_processes_that.ps1\<close>. That title has 31 characters
  and the slice keeps 30, so neither holds.
\<close>

theorem short_title_example_counterexample:
  "short_title ''List all running processes that use CPU'' \<noteq> ''list_all_running_processes_that''
   \<and> file_name (short_title ''List all running processes that use CPU'')
       \<noteq> ''command_list_all_running_processes_that.ps1''"
  by code_simp

text \<open>
  C1, amended: for the description \<^verbatim>\<open>List all running processes that use CPU\<close>
  the short title (the first 30 characters, stripped, spaces replaced by underscores, in
  lower case) is \<^verbatim>\<open>list_all_running_processes_tha\<close> and the file name is
  \<^verbatim>\<open>command_list_all_running_processes_tha.ps1\<close>.
\<close>

theorem short_title_example:
  "short_title ''List all running processes that use CPU'' = ''list_all_running_processes_tha''
   \<and> file_name (short_title ''List all running processes that use CPU'')
       = ''command_list_all_running_processes_tha.ps1''"
  by code_simp

text \<open>
  C2, as stated: with \<^verbatim>\<open>add_header\<close> true the returned body would start with the
  banner line of the header. For the reply of a fenced \<^verbatim>\<open>Get-Process\<close> the call
  returns the header followed by the code, and that body starts with neither the banner
  line nor the rule: its first character is a line break.
\<close>

theorem header_at_start_counterexample:
  "parse_and_save_ps1 example_world ''```powershell\<newline>Get-Process\<newline>```'' ''t'' ''utf-8'' True
     = Inr ((''command_t.ps1'', header ''2025-01-01 12:00:00'' @ ''Get-Process''),
         example_world\<lparr>files := (files example_world)(''command_t.ps1'' \<mapsto>
           utf8 (header ''2025-01-01 12:00:00'' @ ''Get-Process''))\<rparr>)
   \<and> \<not> prefix ''# Script Generated by Google Gemini 2 PowerShell Command Gen''
         (header ''2025-01-01 12:00:00'' @ ''Get-Process'')
   \<and> \<not> prefix rule_line (header ''2025-01-01 12:00:00'' @ ''Get-Process'')
   \<and> hd (header ''2025-01-01 12:00:00'' @ ''Get-Process'') = CHR ''\<newline>''"
proof -
  have c: "ps1_code ''```powershell\<newline>Get-Process\<newline>```'' = Inr ''Get-Process''"
    by code_simp
  have "parse_and_save_ps1 example_world ''```powershell\<newline>Get-Process\<newline>```'' ''t'' ''utf-8'' True
     = Inr ((''command_t.ps1'', header ''2025-01-01 12:00:00'' @ ''Get-Process''),
         example_world\<lparr>files := (files example_world)(''command_t.ps1'' \<mapsto>
           utf8 (header ''2025-01-01 12:00:00'' @ ''Get-Process''))\<rparr>)"
    using parse_and_save_ps1_example [OF c, of "''t''" True] by (simp add: file_name_def)
  then show ?thesis by (simp add: header_def rule_line_def)
qed

text \<open>
  C2, amended: whenever \<^verbatim>\<open>parse_and_save_ps1\<close> returns, with \<^verbatim>\<open>add_header\<close>
  true the body is the header followed by the extracted code, so it starts with a line
  break, then the rule of equals signs, then the banner line that names the tool; with
  \<^verbatim>\<open>add_header\<close> false the body is the extracted code and nothing else.
\<close>

theorem header_at_start:
  assumes "parse_and_save_ps1 w raw title enc hdr = Inr ((name, body), w')"
  shows "(hdr \<longrightarrow>
            prefix (''\<newline>''
              @ rule_line @ ''\<newline>''
              @ ''# Script Generated by Google Gemini 2 PowerShell Command Gen\<newline>'') body
            \<and> (\<exists>code. ps1_code raw = Inr code \<and> body = header (now w) @ code))
       \<and> (\<not> hdr \<longrightarrow> ps1_code raw = Inr body)"
proof -
  from parse_and_save_ps1_body [OF assms] obtain code
    where c: "ps1_code raw = Inr code" "body = (if hdr then header (now w) else []) @ code"
    by blast
  have "prefix (''\<newline>''
      @ rule_line @ ''\<newline>''
      @ ''# Script Generated by Google Gemini 2 PowerShell Command Gen\<newline>'') (header d @ code)" for d
    by (simp add: header_def)
  with c show ?thesis by auto
qed

theorem header_at_start_witness:
  "parse_and_save_ps1 example_world ''```powershell\<newline>Get-Process\<newline>```'' ''t'' ''utf-8'' True
     = Inr ((''command_t.ps1'', header ''2025-01-01 12:00:00'' @ ''Get-Process''),
         example_world\<lparr>files := (files example_world)(''command_t.ps1'' \<mapsto>
           utf8 (header ''2025-01-01 12:00:00'' @ ''Get-Process''))\<rparr>)
   \<and> prefix (''\<newline>''
         @ rule_line @ ''\<newline>''
         @ ''# Script Generated by Google Gemini 2 PowerShell Command Gen\<newline>'')
       (header ''2025-01-01 12:00:00'' @ ''Get-Process'')"
proof -
  have c: "ps1_code ''```powershell\<newline>Get-Process\<newline>```'' = Inr ''Get-Process''"
    by code_simp
  have h: "parse_and_save_ps1 example_world ''```powershell\<newline>Get-Process\<newline>```'' ''t''
       ''utf-8'' True
     = Inr ((''command_t.ps1'', header ''2025-01-01 12:00:00'' @ ''Get-Process''),
         example_world\<lparr>files := (files example_world)(''command_t.ps1'' \<mapsto>
           utf8 (header ''2025-01-01 12:00:00'' @ ''Get-Process''))\<rparr>)"
    using parse_and_save_ps1_example [OF c, of "''t''" True] by (simp add: file_name_def)
  from header_at_start [OF h] h show ?thesis by simp
qed

text \<open>
  C3: a reply made of any text without the marker, the marker, whitespace,
  \<^verbatim>\<open>Get-Process\<close>, whitespace, the fence and any text at all has the extracted
  code \<^verbatim>\<open>Get-Process\<close>. The call then writes and returns that code, after the
  header when one is asked for, unless the environment refuses the write.
\<close>

theorem get_process_round_trip:
  assumes "\<not> sublist marker (lower pre)"
    and "list_all isspace ws1" and "list_all isspace ws2"
    and "raw = pre @ marker @ ws1 @ ''Get-Process'' @ ws2 @ fence @ post"
  shows "ps1_code raw = Inr ''Get-Process'' \<and>
    (case parse_and_save_ps1 w raw title enc hdr of
       Inl e \<Rightarrow> refuses w (file_name title) enc
                  ((if hdr then header (now w) else []) @ ''Get-Process'') = Some e
     | Inr ((name, body), w') \<Rightarrow> body = (if hdr then header (now w) else []) @ ''Get-Process'')"
proof -
  let ?u = "ws1 @ ''Get-Process'' @ ws2"
  have sp: "\<forall>c \<in> set ws1. isspace c" "\<forall>c \<in> set ws2. isspace c"
    using assms(2,3) by (simp_all add: list_all_iff)
  then have "\<forall>c \<in> set ?u. c \<noteq> CHR ''`''"
    using isspace_not_tick by auto
  then have "before_fence (?u @ fence @ post) = Some ?u" by (rule before_fence_ticks)
  moreover have "lower marker = marker" by (simp add: lower_def lower_marker)
  ultimately have "ps1_code (pre @ marker @ ?u @ fence @ post) = Inr (strip ?u)"
    using assms(1) by (intro ps1_code_found)
  moreover have "strip ?u = ''Get-Process''"
    using sp by (intro strip_padded) (simp_all add: isspace_def)
  ultimately have c: "ps1_code raw = Inr ''Get-Process''" using assms(4) by simp
  from parse_and_save_ps1_cases [OF c] show ?thesis using c by blast
qed

theorem get_process_round_trip_witness:
  "\<not> sublist marker (lower ''Here is the command: '')
   \<and> list_all isspace ''\<newline>  '' \<and> list_all isspace '' \<newline>''
   \<and> ps1_code (''Here is the command: '' @ marker @ ''\<newline>  '' @ ''Get-Process'' @ '' \<newline>'' @ fence
         @ '' and ``` more'') = Inr ''Get-Process''
   \<and> parse_and_save_ps1 example_world
         (''Here is the command: '' @ marker @ ''\<newline>  '' @ ''Get-Process'' @ '' \<newline>'' @ fence
         @ '' and ``` more'') ''list_processes'' ''utf-8'' False
       = Inr ((''command_list_processes.ps1'', ''Get-Process''),
           example_world\<lparr>files := (files example_world)(''command_list_processes.ps1'' \<mapsto>
             utf8 ''Get-Process'')\<rparr>)"
proof -
  have h1: "\<not> sublist marker (lower ''Here is the command: '')" by code_simp
  have h2: "list_all isspace ''\<newline>  ''" by code_simp
  have h3: "list_all isspace '' \<newline>''" by code_simp
  from get_process_round_trip [OF h1 h2 h3 refl]
  have c: "ps1_code (''Here is the command: '' @ marker @ ''\<newline>  '' @ ''Get-Process'' @ '' \<newline>''
             @ fence @ '' and ``` more'') = Inr ''Get-Process''"
    by blast
  have "parse_and_save_ps1 example_world
         (''Here is the command: '' @ marker @ ''\<newline>  '' @ ''Get-Process'' @ '' \<newline>'' @ fence
         @ '' and ``` more'') ''list_processes'' ''utf-8'' False
       = Inr ((''command_list_processes.ps1'', ''Get-Process''),
           example_world\<lparr>files := (files example_world)(''command_list_processes.ps1'' \<mapsto>
             utf8 ''Get-Process'')\<rparr>)"
    using parse_and_save_ps1_example [OF c, of "''list_processes''" False]
    by (simp add: file_name_def)
  with h1 h2 h3 c show ?thesis by blast
qed

text \<open>
  C4: a reply without any fence has the whole stripped reply as its extracted code, and
  that is the body written and returned (after the header when one is asked for).
\<close>

theorem fallback_without_fence:
  assumes "\<not> sublist fence raw"
  shows "ps1_code raw = Inr (strip raw) \<and>
    (case parse_and_save_ps1 w raw title enc hdr of
       Inl e \<Rightarrow> refuses w (file_name title) enc
                  ((if hdr then header (now w) else []) @ strip raw) = Some e
     | Inr ((name, body), w') \<Rightarrow> body = (if hdr then header (now w) else []) @ strip raw)"
proof -
  from assms have "\<not> sublist marker (lower raw)" by (rule fence_in_marker_free)
  then have "re_search re_flags code_block raw = None" by (rule re_search_no_marker)
  then have c: "ps1_code raw = Inr (strip raw)" by (rule ps1_code_fallback)
  from parse_and_save_ps1_cases [OF c] show ?thesis using c by blast
qed

theorem fallback_without_fence_witness:
  "\<not> sublist fence ''  Get-Process | Sort-Object CPU\<newline>''
   \<and> ps1_code ''  Get-Process | Sort-Object CPU\<newline>'' = Inr ''Get-Process | Sort-Object CPU''"
proof -
  have h: "\<not> sublist fence ''  Get-Process | Sort-Object CPU\<newline>''" by code_simp
  have s: "strip ''  Get-Process | Sort-Object CPU\<newline>'' = ''Get-Process | Sort-Object CPU''"
    by code_simp
  from fallback_without_fence [OF h] h s show ?thesis by simp
qed

text \<open>
  C5: when the request that \<^verbatim>\<open>main\<close> sends to the model raises, whatever the
  exception, \<^verbatim>\<open>generate_powershell_command\<close> returns \<^verbatim>\<open>None\<close> with the error
  shown and no text, and \<^verbatim>\<open>main\<close> ends with the world as it was: no file is
  written and no download is offered.
\<close>

theorem api_failure_writes_nothing:
  assumes "api (model_name wd)
       \<lparr>cfg_temperature = temperature wd, cfg_top_p = 8 / 10, cfg_top_k = 40,
        cfg_response_mime_type = ''text/plain'', cfg_max_output_tokens = max_tokens wd\<rparr> []
       (build_prompt (with_preset (prompt_presets wd) (prompt_base wd)) (detail_level wd)
          (script_type wd) (security_level wd) (prompt_detail wd) (log_level wd)
          (add_error_handling wd)) = Inl e"
  shows "generate_powershell_command api (with_preset (prompt_presets wd) (prompt_base wd))
           (detail_level wd) (script_type wd) (security_level wd) (model_name wd)
           (temperature wd) (max_tokens wd) (prompt_detail wd) (encoding wd) (add_header wd)
           (add_error_handling wd) (log_level wd) = (None, [Error_communicating e])
       \<and> main api w wd =
           Inr (if button wd
                then if with_preset (prompt_presets wd) (prompt_base wd) = []
                     then [Error_no_description]
                     else [Error_communicating e, Error_generating]
                else [], w)"
  using assms
  by (simp add: main_def generate_powershell_command_def send_message_to_model_def Let_def)

theorem api_failure_writes_nothing_witness:
  "failing_api (model_name example_widgets)
       \<lparr>cfg_temperature = temperature example_widgets, cfg_top_p = 8 / 10, cfg_top_k = 40,
        cfg_response_mime_type = ''text/plain'',
        cfg_max_output_tokens = max_tokens example_widgets\<rparr> []
       (build_prompt
          (with_preset (prompt_presets example_widgets) (prompt_base example_widgets))
          (detail_level example_widgets) (script_type example_widgets)
          (security_level example_widgets) (prompt_detail example_widgets)
          (log_level example_widgets) (add_error_handling example_widgets))
     = Inl ''503 Service Unavailable''
   \<and> main failing_api example_world example_widgets
     = Inr ([Error_communicating ''503 Service Unavailable'', Error_generating], example_world)"
proof -
  have h: "failing_api (model_name example_widgets)
       \<lparr>cfg_temperature = temperature example_widgets, cfg_top_p = 8 / 10, cfg_top_k = 40,
        cfg_response_mime_type = ''text/plain'',
        cfg_max_output_tokens = max_tokens example_widgets\<rparr> []
       (build_prompt
          (with_preset (prompt_presets example_widgets) (prompt_base example_widgets))
          (detail_level example_widgets) (script_type example_widgets)
          (security_level example_widgets) (prompt_detail example_widgets)
          (log_level example_widgets) (add_error_handling example_widgets))
     = Inl ''503 Service Unavailable''"
    by (simp add: failing_api_def)
  have "button example_widgets"
    and "with_preset (prompt_presets example_widgets) (prompt_base example_widgets) \<noteq> []"
    by (simp_all add: example_widgets_def with_preset_def)
  with api_failure_writes_nothing [where api = failing_api and wd = example_widgets
      and e = "''503 Service Unavailable''" and w = example_world, OF h] h
  show ?thesis by simp
qed

text \<open>
  C6: a block opened by the marker in any letter case, the upper case one among them,
  is recognised. With no marker in the text before it and the closing fence the first
  fence after it, the extracted code is the stripped interior, and that is the body
  written and returned (after the header when one is asked for).
\<close>

theorem upper_case_marker_recognised:
  assumes "lower M = marker"
    and "\<not> sublist marker (lower pre)"
    and "\<not> sublist fence (interior @ ''``'')"
  shows "ps1_code (pre @ M @ interior @ fence @ post) = Inr (strip interior) \<and>
    (case parse_and_save_ps1 w (pre @ M @ interior @ fence @ post) title enc hdr of
       Inl e \<Rightarrow> refuses w (file_name title) enc
                  ((if hdr then header (now w) else []) @ strip interior) = Some e
     | Inr ((name, body), w') \<Rightarrow> body = (if hdr then header (now w) else []) @ strip interior)"
proof -
  from assms(3) have "before_fence (interior @ fence @ post) = Some interior"
    by (rule before_fence_first)
  with assms(1,2) have c: "ps1_code (pre @ M @ interior @ fence @ post) = Inr (strip interior)"
    by (intro ps1_code_found)
  from parse_and_save_ps1_cases [OF c] show ?thesis using c by blast
qed

theorem upper_case_marker_recognised_witness:
  "lower ''```POWERSHELL'' = marker
   \<and> \<not> sublist marker (lower ''Sure: '')
   \<and> \<not> sublist fence (''\<newline>Get-Service `\<newline>  -Name W32Time\<newline>'' @ ''``'')
   \<and> ps1_code (''Sure: '' @ ''```POWERSHELL'' @ ''\<newline>Get-Service `\<newline>  -Name W32Time\<newline>''
        @ fence @ '' done'') = Inr ''Get-Service `\<newline>  -Name W32Time''"
proof -
  have h1: "lower ''```POWERSHELL'' = marker" by code_simp
  have h2: "\<not> sublist marker (lower ''Sure: '')" by code_simp
  have h3: "\<not> sublist fence (''\<newline>Get-Service `\<newline>  -Name W32Time\<newline>'' @ ''``'')"
    by code_simp
  have s: "strip ''\<newline>Get-Service `\<newline>  -Name W32Time\<newline>'' = ''Get-Service `\<newline>  -Name W32Time''"
    by code_simp
  from upper_case_marker_recognised [OF h1 h2 h3] h1 h2 h3 s show ?thesis by simp
qed

text \<open>
  C7: two requests with the same description, detail level, script type, security level,
  prompt detail, log level and error handling flag give the same prompt, character for
  character; with the same model settings the two calls of
  \<^verbatim>\<open>generate_powershell_command\<close> are the same request, whatever the encoding
  and the header flag.
\<close>

theorem build_prompt_deterministic:
  assumes "description1 = description2" and "detail1 = detail2" and "type1 = type2"
    and "security1 = security2" and "prompt_detail1 = prompt_detail2" and "log1 = log2"
    and "handling1 = handling2"
  shows "build_prompt description1 detail1 type1 security1 prompt_detail1 log1 handling1
       = build_prompt description2 detail2 type2 security2 prompt_detail2 log2 handling2
     \<and> generate_powershell_command api description1 detail1 type1 security1 mn temp mt
           prompt_detail1 enc1 hdr1 handling1 log1
       = generate_powershell_command api description2 detail2 type2 security2 mn temp mt
           prompt_detail2 enc2 hdr2 handling2 log2"
  using assms by (simp add: generate_powershell_command_def)

theorem build_prompt_deterministic_witness:
  "build_prompt ''List files'' ''Default'' ''More automatic'' ''Medium'' ''Default'' ''Default'' True
     = build_prompt ''List files'' ''Default'' ''More automatic'' ''Medium'' ''Default'' ''Default'' True
   \<and> generate_powershell_command example_api ''List files'' ''Default'' ''More automatic''
         ''Medium'' ''gemini-1.5-flash'' (7 / 10) 8192 ''Default'' ''utf-8'' True True ''Default''
     = generate_powershell_command example_api ''List files'' ''Default'' ''More automatic''
         ''Medium'' ''gemini-1.5-flash'' (7 / 10) 8192 ''Default'' ''ansi'' False True ''Default''"
  by (rule build_prompt_deterministic) (rule refl)+




text \<open>
  C9: a reply with the marker (in any letter case), no marker before it and no fence
  after it takes the fallback: the extracted code is the whole stripped reply, marker
  included.
\<close>

theorem unclosed_block_falls_back:
  assumes "lower M = marker"
    and "\<not> sublist marker (lower pre)"
    and "\<not> sublist fence rest"
  shows "ps1_code (pre @ M @ rest) = Inr (strip (pre @ M @ rest)) \<and>
    (case parse_and_save_ps1 w (pre @ M @ rest) title enc hdr of
       Inl e \<Rightarrow> refuses w (file_name title) enc
                  ((if hdr then header (now w) else []) @ strip (pre @ M @ rest)) = Some e
     | Inr ((name, body), w') \<Rightarrow>
         body = (if hdr then header (now w) else []) @ strip (pre @ M @ rest))"
proof -
  from assms(2,1,3) have "re_search re_flags code_block (pre @ M @ rest) = None"
    by (rule re_search_unclosed)
  then have c: "ps1_code (pre @ M @ rest) = Inr (strip (pre @ M @ rest))"
    by (rule ps1_code_fallback)
  from parse_and_save_ps1_cases [OF c] show ?thesis using c by blast
qed

theorem unclosed_block_falls_back_witness:
  "lower ''```powershell'' = marker
   \<and> \<not> sublist marker (lower '' Try: '')
   \<and> \<not> sublist fence ''\<newline>Get-Process\<newline>``\<newline>''
   \<and> ps1_code ('' Try: '' @ ''```powershell'' @ ''\<newline>Get-Process\<newline>``\<newline>'')
       = Inr ''Try: ```powershell\<newline>Get-Process\<newline>``''"
proof -
  have h1: "lower ''```powershell'' = marker" by code_simp
  have h2: "\<not> sublist marker (lower '' Try: '')" by code_simp
  have h3: "\<not> sublist fence ''\<newline>Get-Process\<newline>``\<newline>''" by code_simp
  have s: "strip ('' Try: '' @ ''```powershell'' @ ''\<newline>Get-Process\<newline>``\<newline>'')
      = ''Try: ```powershell\<newline>Get-Process\<newline>``''"
    by code_simp
  from unclosed_block_falls_back [OF h1 h2 h3] h1 h2 h3 s show ?thesis by simp
qed

text \<open>
  C10: a reply in which no fence is followed by the language tag
  \<^verbatim>\<open>powershell\<close>, in any letter case, is not recognised as a block, bare fences or
  not: the extracted code is the whole stripped reply with its fences.
\<close>

theorem bare_fence_falls_back:
  assumes "\<not> sublist marker (lower raw)"
  shows "ps1_code raw = Inr (strip raw) \<and>
    (case parse_and_save_ps1 w raw title enc hdr of
       Inl e \<Rightarrow> refuses w (file_name title) enc
                  ((if hdr then header (now w) else []) @ strip raw) = Some e
     | Inr ((name, body), w') \<Rightarrow> body = (if hdr then header (now w) else []) @ strip raw)"
proof -
  from assms have "re_search re_flags code_block raw = None" by (rule re_search_no_marker)
  then have c: "ps1_code raw = Inr (strip raw)" by (rule ps1_code_fallback)
  from parse_and_save_ps1_cases [OF c] show ?thesis using c by blast
qed

theorem bare_fence_falls_back_witness:
  "\<not> sublist marker (lower ''```\<newline>Get-Process\<newline>```\<newline>'')
   \<and> ps1_code ''```\<newline>Get-Process\<newline>```\<newline>'' = Inr ''```\<newline>Get-Process\<newline>```''"
proof -
  have h: "\<not> sublist marker (lower ''```\<newline>Get-Process\<newline>```\<newline>'')" by code_simp
  have s: "strip ''```\<newline>Get-Process\<newline>```\<newline>'' = ''```\<newline>Get-Process\<newline>```''"
    by code_simp
  from bare_fence_falls_back [OF h] h s show ?thesis by simp
qed

end
